theory Spec2Isabelle
  imports Complex_Main
begin

section \<open>Python values, errors and list indexing\<close>

text \<open>
  The program is Python.  Integers are unbounded (\<open>int\<close>), a pixel is a pair of
  integers, a binary mask is a list of rows of booleans (\<open>obj[x][y]\<close>), and an
  exception is the left summand of a result.  The two exceptions that the modelled
  functions can raise are Python's built-in \<open>IndexError\<close> and \<open>ZeroDivisionError\<close>;
  the source defines no exception class of its own.  \<open>DegenerateObjectError\<close> is the
  name the design document gives to the failure of an empty mask; no source path
  raises it.
\<close>

datatype error = IndexError | ZeroDivisionError | DegenerateObjectError

type_synonym point = "int \<times> int"
type_synonym mask = "bool list list"

definition py_get :: "'a list \<Rightarrow> int \<Rightarrow> error + 'a" where
  "py_get xs i =
     (let n = int (length xs); j = (if i < 0 then i + n else i)
      in if 0 \<le> j \<and> j < n then Inr (xs ! nat j) else Inl IndexError)"

definition py_pop :: "'a list \<Rightarrow> int \<Rightarrow> error + 'a list" where
  "py_pop xs i =
     (let n = int (length xs); j = (if i < 0 then i + n else i)
      in if 0 \<le> j \<and> j < n then Inr (take (nat j) xs @ drop (Suc (nat j)) xs)
         else Inl IndexError)"

text \<open>
  \<open>cell\<close> is the read \<open>obj[x][y]\<close>, \<open>not_cell\<close> its negation, and \<open>or_else\<close> the
  short-circuit \<open>or\<close>: the right operand is evaluated only when the left one is
  false, and an exception of the left one wins.
\<close>

definition cell :: "mask \<Rightarrow> int \<Rightarrow> int \<Rightarrow> error + bool" where
  "cell obj x y = (case py_get obj x of Inl e \<Rightarrow> Inl e | Inr row \<Rightarrow> py_get row y)"

definition not_cell :: "mask \<Rightarrow> int \<Rightarrow> int \<Rightarrow> error + bool" where
  "not_cell obj x y = (case cell obj x y of Inl e \<Rightarrow> Inl e | Inr v \<Rightarrow> Inr (\<not> v))"

definition or_else :: "error + bool \<Rightarrow> error + bool \<Rightarrow> error + bool" where
  "or_else a b = (case a of Inl e \<Rightarrow> Inl e | Inr v \<Rightarrow> if v then Inr True else b)"

section \<open>Contour extraction (\<open>convex_hull.py\<close>)\<close>

definition isContour :: "mask \<Rightarrow> int \<Rightarrow> int \<Rightarrow> error + bool" where
  "isContour obj x y =
     (if x < 0 \<or> y < 0 \<or> x \<ge> int (length obj) then Inr False
      else (case py_get obj 0 of Inl e \<Rightarrow> Inl e | Inr row0 \<Rightarrow>
        (if y \<ge> int (length row0) then Inr False
         else (case cell obj x y of Inl e \<Rightarrow> Inl e | Inr v \<Rightarrow>
           (if \<not> v then Inr False
            else if x = 0 \<or> y = 0 \<or> x = int (length obj) - 1 \<or> y = int (length obj) - 1
              then Inr True
            else or_else (not_cell obj (x - 1) y) (or_else (not_cell obj (x + 1) y)
                   (or_else (not_cell obj x (y - 1)) (not_cell obj x (y + 1)))))))))"

text \<open>
  \<open>collect f ps\<close> is the loop that appends the points \<open>p\<close> with \<open>f p\<close> true, in
  order, and stops at the first exception.  \<open>scan_order n\<close> is the order of the two
  loops of \<open>object_contour\<close>, both over \<open>range(len(obj))\<close>.
\<close>

fun collect :: "(point \<Rightarrow> error + bool) \<Rightarrow> point list \<Rightarrow> error + point list" where
  "collect f [] = Inr []"
| "collect f (p # ps) =
     (case f p of Inl e \<Rightarrow> Inl e
      | Inr b \<Rightarrow> (case collect f ps of Inl e \<Rightarrow> Inl e
                 | Inr r \<Rightarrow> Inr (if b then p # r else r)))"

definition scan_order :: "nat \<Rightarrow> point list" where
  "scan_order n = concat (map (\<lambda>i. map (\<lambda>j. (int i, int j)) [0..<n]) [0..<n])"

definition object_contour :: "mask \<Rightarrow> error + point list" where
  "object_contour obj = collect (\<lambda>(i, j). isContour obj i j) (scan_order (length obj))"

section \<open>Convex hull (\<open>convex_hull.py\<close>)\<close>

definition get_corner_pixel :: "point list \<Rightarrow> point" where
  "get_corner_pixel contour =
     fold (\<lambda>pixel min_pix.
             if fst pixel < fst min_pix \<or> (fst pixel = fst min_pix \<and> snd pixel < snd min_pix)
             then pixel else min_pix)
          contour (9999, 9999)"

definition compute_slope :: "point \<Rightarrow> point \<Rightarrow> rat" where
  "compute_slope p1 p2 =
     (if fst p2 - fst p1 = 0 then 1
      else of_int (snd p2 - snd p1) / of_int (fst p2 - fst p1))"

definition compute_power :: "point \<Rightarrow> point \<Rightarrow> point \<Rightarrow> int" where
  "compute_power line_p1 line_p2 pt =
     (let dy = snd line_p2 - snd line_p1; dx = fst line_p2 - fst line_p1
      in dy * (fst pt - fst line_p1) - dx * (snd pt - snd line_p1))"

definition sortby_slope :: "point \<Rightarrow> point list \<Rightarrow> point list" where
  "sortby_slope minpix contour = sort_key (compute_slope minpix) contour"

text \<open>
  The \<open>while\<close> loop of \<open>convex_hull\<close>, on the list \<open>ch\<close> and the cursor \<open>i\<close>:
  \<open>prune_step\<close> is its body, \<open>prune\<close> the loop, and \<open>prune_cursors\<close> the list of the
  cursor values at which the loop evaluates a power test.  The slopes, quotients of
  integers, are rationals.
\<close>

definition prune_step :: "point list \<Rightarrow> int \<Rightarrow> error + (point list \<times> int)" where
  "prune_step ch i =
     (case py_get ch (i - 1) of Inl e \<Rightarrow> Inl e | Inr a \<Rightarrow>
     (case py_get ch (i + 1) of Inl e \<Rightarrow> Inl e | Inr b \<Rightarrow>
     (case py_get ch i of Inl e \<Rightarrow> Inl e | Inr c \<Rightarrow>
       (if compute_power a b c \<ge> 0 then Inr (ch, i + 1)
        else (case py_pop ch i of Inl e \<Rightarrow> Inl e | Inr ch' \<Rightarrow> Inr (ch', i - 1))))))"

lemma py_pop_length: "py_pop xs i = Inr ys \<Longrightarrow> Suc (length ys) = length xs"
  by (auto simp: py_pop_def Let_def split: if_splits)

lemma prune_step_measure:
  assumes "prune_step ch i = Inr (ch', i')" and "i < int (length ch) - 1"
  shows "length ch' < length ch \<or>
         (length ch' = length ch \<and> nat (int (length ch') - 1 - i') < nat (int (length ch) - 1 - i))"
  using assms
  by (auto simp: prune_step_def split: sum.splits if_splits dest: py_pop_length)

function prune :: "point list \<Rightarrow> int \<Rightarrow> error + point list" where
  "prune ch i =
     (if i < int (length ch) - 1
      then (case prune_step ch i of Inl e \<Rightarrow> Inl e | Inr (ch', i') \<Rightarrow> prune ch' i')
      else Inr ch)"
  by pat_completeness auto
termination
proof (relation "measures [\<lambda>(ch, i). length ch, \<lambda>(ch, i). nat (int (length ch) - 1 - i)]")
  show "wf (measures [\<lambda>(ch, i). length ch, \<lambda>(ch::point list, i). nat (int (length ch) - 1 - i)])"
    by simp
next
  fix ch :: "point list" and i :: int and x2 ch' i'
  assume "i < int (length ch) - 1" and "prune_step ch i = Inr x2" and "(ch', i') = x2"
  then have "prune_step ch i = Inr (ch', i')" by simp
  from prune_step_measure [OF this \<open>i < int (length ch) - 1\<close>]
  show "((ch', i'), ch, i)
          \<in> measures [\<lambda>(ch, i). length ch, \<lambda>(ch, i). nat (int (length ch) - 1 - i)]"
    by auto
qed

function prune_cursors :: "point list \<Rightarrow> int \<Rightarrow> int list" where
  "prune_cursors ch i =
     (if i < int (length ch) - 1
      then i # (case prune_step ch i of Inl e \<Rightarrow> [] | Inr (ch', i') \<Rightarrow> prune_cursors ch' i')
      else [])"
  by pat_completeness auto
termination
proof (relation "measures [\<lambda>(ch, i). length ch, \<lambda>(ch, i). nat (int (length ch) - 1 - i)]")
  show "wf (measures [\<lambda>(ch, i). length ch, \<lambda>(ch::point list, i). nat (int (length ch) - 1 - i)])"
    by simp
next
  fix ch :: "point list" and i :: int and x2 ch' i'
  assume "i < int (length ch) - 1" and "prune_step ch i = Inr x2" and "(ch', i') = x2"
  then have "prune_step ch i = Inr (ch', i')" by simp
  from prune_step_measure [OF this \<open>i < int (length ch) - 1\<close>]
  show "((ch', i'), ch, i)
          \<in> measures [\<lambda>(ch, i). length ch, \<lambda>(ch, i). nat (int (length ch) - 1 - i)]"
    by auto
qed

definition convex_hull :: "mask \<Rightarrow> error + (point \<times> point list)" where
  "convex_hull obj =
     (case object_contour obj of Inl e \<Rightarrow> Inl e
      | Inr contour \<Rightarrow>
          let min_pix = get_corner_pixel contour;
              sorted_contour = sortby_slope min_pix contour
          in (case prune sorted_contour 1 of Inl e \<Rightarrow> Inl e | Inr ch \<Rightarrow> Inr (min_pix, ch)))"

section \<open>Distances (\<open>math.dist\<close>, \<open>int\<close>, \<open>manhattan\<close>)\<close>

text \<open>
  \<open>int(math.dist(p, q))\<close> is the integer part of the Euclidean distance.  It is
  computed here on the integers, as the greatest \<open>k\<close> with \<open>k\<^sup>2 \<le> dx\<^sup>2 + dy\<^sup>2\<close>;
  \<open>floor_sqrt_eq\<close> below shows that this is the floor of the real square root.
  The quotients and logarithms of the histograms are taken on the real numbers; the
  double-precision operations of \<open>lines_diameters\<close>, on which the number of samples
  depends, are parameters (\<open>float_ops\<close> below).
\<close>

primrec sqrt_below :: "nat \<Rightarrow> nat \<Rightarrow> nat" where
  "sqrt_below n 0 = 0"
| "sqrt_below n (Suc k) = (if Suc k * Suc k \<le> n then Suc k else sqrt_below n k)"

definition floor_sqrt :: "nat \<Rightarrow> nat" where
  "floor_sqrt n = sqrt_below n n"

definition sq_dist :: "point \<Rightarrow> point \<Rightarrow> nat" where
  "sq_dist p q = nat ((fst p - fst q) * (fst p - fst q) + (snd p - snd q) * (snd p - snd q))"

definition trunc_dist :: "point \<Rightarrow> point \<Rightarrow> nat" where
  "trunc_dist p q = floor_sqrt (sq_dist p q)"

definition manhattan :: "int \<Rightarrow> int \<Rightarrow> int \<Rightarrow> int \<Rightarrow> int" where
  "manhattan x1 y1 x2 y2 = \<bar>x2 - x1\<bar> + \<bar>y2 - y1\<bar>"

section \<open>Barycentre and radius (\<open>image.py\<close>)\<close>

text \<open>
  \<open>true_pixels\<close> lists the true pixels in the order of the two comprehensions of
  \<open>barycentre\<close>, whose lists \<open>x_pixels\<close> and \<open>y_pixels\<close> are its projections.  The
  sums are not negative, so the truncation of the quotient is the integer division.
\<close>

definition true_pixels :: "mask \<Rightarrow> point list" where
  "true_pixels obj =
     concat (map (\<lambda>(x, row). map (\<lambda>y. (int x, int y)) (filter (\<lambda>y. row ! y) [0..<length row]))
                 (enumerate 0 obj))"

definition barycentre :: "mask \<Rightarrow> error + point" where
  "barycentre obj =
     (let x_pixels = map fst (true_pixels obj);
          y_pixels = map snd (true_pixels obj)
      in if length x_pixels = 0 then Inl ZeroDivisionError
         else Inr (sum_list x_pixels div int (length x_pixels),
                   sum_list y_pixels div int (length y_pixels)))"

definition indexed :: "mask \<Rightarrow> (int \<times> int \<times> bool) list" where
  "indexed obj =
     concat (map (\<lambda>(i, listJ). map (\<lambda>(j, v). (int i, int j, v)) (enumerate 0 listJ))
                 (enumerate 0 obj))"

text \<open>The bounding box is the list \<open>[minX, maxX, minY, maxY]\<close> of the source.\<close>

definition bounding_box :: "mask \<Rightarrow> int \<times> int \<times> int \<times> int" where
  "bounding_box obj =
     fold (\<lambda>(i, j, v) (minX, maxX, minY, maxY).
             if v then (if i < minX then i else minX, if i > maxX then i else maxX,
                        if j < minY then j else minY, if j > maxY then j else maxY)
             else (minX, maxX, minY, maxY))
          (indexed obj) (int (length obj), 0, int (length obj), 0)"

text \<open>The corners in the order of the loops \<open>for x1 in range(2): for y1 in range(2)\<close>.\<close>

definition corners :: "int \<times> int \<times> int \<times> int \<Rightarrow> point list" where
  "corners bb = (case bb of (minX, maxX, minY, maxY) \<Rightarrow>
     [(minX, minY), (minX, maxY), (maxX, minY), (maxX, maxY)])"

definition farthest :: "int \<Rightarrow> int \<Rightarrow> point list \<Rightarrow> point" where
  "farthest x y cs =
     fst (fold (\<lambda>c (best, o_max).
                  if manhattan x y (fst c) (snd c) > o_max
                  then (c, manhattan x y (fst c) (snd c)) else (best, o_max))
               cs ((0, 0), 0))"

definition radial_line_model_radius :: "mask \<times> mask \<Rightarrow> int \<Rightarrow> int \<Rightarrow> int" where
  "radial_line_model_radius objects x y =
     (let bounding_boxes = [bounding_box (fst objects), bounding_box (snd objects)]
      in int (trunc_dist (x, y) (farthest x y (concat (map corners bounding_boxes)))))"

section \<open>Sampling and histograms (\<open>image.py\<close>)\<close>








definition point_overlap :: "point \<Rightarrow> mask \<Rightarrow> error + bool" where
  "point_overlap pt obj =
     (if 0 \<le> fst pt \<and> fst pt < int (length obj) \<and> 0 \<le> snd pt
      then (case py_get obj 0 of Inl e \<Rightarrow> Inl e
            | Inr row0 \<Rightarrow> if snd pt < int (length row0) then cell obj (fst pt) (snd pt)
                          else Inr False)
      else Inr False)"

text \<open>\<open>occupancy\<close> is one entry of a histogram of \<open>radial_line_model\<close>.\<close>

definition occupancy :: "point list \<Rightarrow> mask \<Rightarrow> error + real" where
  "occupancy line obj =
     (case collect (\<lambda>p. point_overlap p obj) line of Inl e \<Rightarrow> Inl e
      | Inr inside \<Rightarrow> if length line = 0 then Inl ZeroDivisionError
                     else Inr (real (length inside) / real (length line)))"

fun radial_line_model :: "point list list \<Rightarrow> mask \<times> mask \<Rightarrow> error + (real list \<times> real list)" where
  "radial_line_model [] objects = Inr ([], [])"
| "radial_line_model (line # lines) objects =
     (case occupancy line (fst objects) of Inl e \<Rightarrow> Inl e | Inr v1 \<Rightarrow>
     (case occupancy line (snd objects) of Inl e \<Rightarrow> Inl e | Inr v2 \<Rightarrow>
     (case radial_line_model lines objects of Inl e \<Rightarrow> Inl e
      | Inr (histObj1, histObj2) \<Rightarrow> Inr (v1 # histObj1, v2 # histObj2))))"

datatype label = A | B | Background

text \<open>
  The label of a point: \<open>A\<close> when it lies on \<open>objects[1]\<close>, else \<open>B\<close> when it lies on
  \<open>objects[0]\<close>, else \<open>_\<close>.  The source writes the test of \<open>point_overlap\<close> inline.
\<close>

definition classify :: "mask \<times> mask \<Rightarrow> point \<Rightarrow> error + label" where
  "classify objects pt =
     (case point_overlap pt (snd objects) of Inl e \<Rightarrow> Inl e
      | Inr a \<Rightarrow> if a then Inr A
                 else (case point_overlap pt (fst objects) of Inl e \<Rightarrow> Inl e
                       | Inr b \<Rightarrow> Inr (if b then B else Background)))"

fun travel :: "mask \<times> mask \<Rightarrow> point list \<Rightarrow> error + label list" where
  "travel objects [] = Inr []"
| "travel objects (pt # line) =
     (case classify objects pt of Inl e \<Rightarrow> Inl e
      | Inr l \<Rightarrow> (case travel objects line of Inl e \<Rightarrow> Inl e | Inr ls \<Rightarrow> Inr (l # ls)))"

fun travels_of :: "mask \<times> mask \<Rightarrow> point list list \<Rightarrow> error + label list list" where
  "travels_of objects [] = Inr []"
| "travels_of objects (line # diameters) =
     (case travel objects line of Inl e \<Rightarrow> Inl e
      | Inr t \<Rightarrow> (case travels_of objects diameters of Inl e \<Rightarrow> Inl e | Inr ts \<Rightarrow> Inr (t # ts)))"

text \<open>One term of the sum: the truncated distance, or its logarithmic variant.\<close>

definition contribution :: "int \<Rightarrow> point \<Rightarrow> point \<Rightarrow> error + real" where
  "contribution force_type p q =
     (let dist = trunc_dist p q in
      if force_type = 0 then Inr (real dist)
      else if dist * (dist + 2) = 0 then Inl ZeroDivisionError
      else Inr (ln (real ((dist + 1) ^ 2) / real (dist * (dist + 2)))))"

text \<open>
  The loops \<open>for p in range(len(fline))\<close> and \<open>for r in range(p, len(fline))\<close> run over
  the positions of a diameter whose points are paired with their labels; the inner
  loop starts at the position of the outer one.
\<close>

fun force_inner :: "int \<Rightarrow> point \<Rightarrow> (label \<times> point) list \<Rightarrow> real \<Rightarrow> error + real" where
  "force_inner force_type p [] force = Inr force"
| "force_inner force_type p ((l, q) # rest) force =
     (if l = B
      then (case contribution force_type p q of Inl e \<Rightarrow> Inl e
            | Inr c \<Rightarrow> force_inner force_type p rest (force + c))
      else force_inner force_type p rest force)"

fun force_outer :: "int \<Rightarrow> (label \<times> point) list \<Rightarrow> real \<Rightarrow> error + real" where
  "force_outer force_type [] force = Inr force"
| "force_outer force_type ((l, p) # rest) force =
     (if l = A
      then (case force_inner force_type p ((l, p) # rest) force of Inl e \<Rightarrow> Inl e
            | Inr force' \<Rightarrow> force_outer force_type rest force')
      else force_outer force_type rest force)"

definition force_of :: "int \<Rightarrow> label list \<Rightarrow> point list \<Rightarrow> error + real" where
  "force_of force_type fline line =
     (if A \<in> set fline \<and> B \<in> set fline then force_outer force_type (zip fline line) 0
      else Inr 0)"

fun force_all :: "int \<Rightarrow> label list list \<Rightarrow> point list list \<Rightarrow> error + real list" where
  "force_all force_type (fline # travels) (line # diameters) =
     (case force_of force_type fline line of Inl e \<Rightarrow> Inl e
      | Inr f \<Rightarrow> (case force_all force_type travels diameters of Inl e \<Rightarrow> Inl e
                 | Inr fs \<Rightarrow> Inr (f # fs)))"
| "force_all force_type travels diameters = Inr []"

definition forces :: "mask \<times> mask \<Rightarrow> point list list \<Rightarrow> int \<Rightarrow> error + real list" where
  "forces objects diameters force_type =
     (case travels_of objects diameters of Inl e \<Rightarrow> Inl e
      | Inr travels \<Rightarrow> force_all force_type travels diameters)"


section \<open>Specification-side notions\<close>

text \<open>
  A mask is a rectangular grid: all rows are as long as the first.  A point is inside a
  mask when its coordinates are within the grid and the cell there is true; points
  outside the grid are not inside.
\<close>

definition rect :: "mask \<Rightarrow> bool" where
  "rect obj = (\<forall>row \<in> set obj. length row = length (hd obj))"

definition inside :: "mask \<Rightarrow> point \<Rightarrow> bool" where
  "inside obj pt =
     (0 \<le> fst pt \<and> fst pt < int (length obj) \<and> 0 \<le> snd pt \<and> snd pt < int (length (hd obj)) \<and>
      obj ! nat (fst pt) ! nat (snd pt))"

text \<open>
  The boundary predicate: the pixel is inside the mask and lies on the outer border of
  the grid or has an orthogonal neighbour that is not inside.
\<close>

definition is_boundary :: "mask \<Rightarrow> point \<Rightarrow> bool" where
  "is_boundary obj pt =
     (inside obj pt \<and>
      (fst pt = 0 \<or> snd pt = 0 \<or> fst pt = int (length obj) - 1 \<or> snd pt = int (length (hd obj)) - 1 \<or>
       \<not> inside obj (fst pt - 1, snd pt) \<or> \<not> inside obj (fst pt + 1, snd pt) \<or>
       \<not> inside obj (fst pt, snd pt - 1) \<or> \<not> inside obj (fst pt, snd pt + 1)))"

text \<open>The occupancy of a line: the number of its points inside the mask over its length.\<close>

definition ratio :: "mask \<Rightarrow> point list \<Rightarrow> real" where
  "ratio obj line = real (length (filter (inside obj) line)) / real (length line)"

text \<open>The label of a point, without the error cases of \<open>classify\<close>.\<close>

definition label_of :: "mask \<times> mask \<Rightarrow> point \<Rightarrow> label" where
  "label_of objects pt =
     (if inside (snd objects) pt then A else if inside (fst objects) pt then B else Background)"

text \<open>
  The sum, over all pairs of positions \<open>p < r\<close> of a diameter with label \<open>A\<close> at \<open>p\<close>
  and label \<open>B\<close> at \<open>r\<close>, of the distance \<open>d\<close> between the two points.  \<open>euclid\<close> is the
  raw Euclidean distance.
\<close>

definition pair_sum :: "(point \<Rightarrow> point \<Rightarrow> real) \<Rightarrow> label list \<Rightarrow> point list \<Rightarrow> real" where
  "pair_sum d fline line =
     (\<Sum>p<length line. \<Sum>r<length line.
        if p < r \<and> fline ! p = A \<and> fline ! r = B then d (line ! p) (line ! r) else 0)"

definition euclid :: "point \<Rightarrow> point \<Rightarrow> real" where
  "euclid p q = sqrt (real (sq_dist p q))"

text \<open>The same sums on a diameter whose points are paired with their labels.\<close>

definition zsum :: "(point \<Rightarrow> point \<Rightarrow> real) \<Rightarrow> (label \<times> point) list \<Rightarrow> real" where
  "zsum d xs =
     (\<Sum>p<length xs. \<Sum>r<length xs.
        if p < r \<and> fst (xs ! p) = A \<and> fst (xs ! r) = B then d (snd (xs ! p)) (snd (xs ! r)) else 0)"

definition row_sum :: "(point \<Rightarrow> point \<Rightarrow> real) \<Rightarrow> point \<Rightarrow> (label \<times> point) list \<Rightarrow> real" where
  "row_sum d p xs = (\<Sum>r<length xs. if fst (xs ! r) = B then d p (snd (xs ! r)) else 0)"



section \<open>The integer square root\<close>

lemma sqrt_below_sq: "sqrt_below n k * sqrt_below n k \<le> n"
  by (induction k) simp_all

lemma sqrt_below_greatest: "j \<le> k \<Longrightarrow> j * j \<le> n \<Longrightarrow> j \<le> sqrt_below n k"
proof (induction k)
  case 0
  then show ?case by simp
next
  case (Suc k)
  then show ?case by (cases "j = Suc k") auto
qed

lemma floor_sqrt_lower: "floor_sqrt n * floor_sqrt n \<le> n"
  by (simp add: floor_sqrt_def sqrt_below_sq)

lemma floor_sqrt_greatest: "j * j \<le> n \<Longrightarrow> j \<le> floor_sqrt n"
proof -
  assume h: "j * j \<le> n"
  have "j \<le> j * j" by (cases j) simp_all
  from this h have "j \<le> n" by (rule le_trans)
  with h show ?thesis by (simp add: floor_sqrt_def sqrt_below_greatest)
qed

lemma floor_sqrt_upper: "n < Suc (floor_sqrt n) * Suc (floor_sqrt n)"
proof (rule ccontr)
  assume "\<not> n < Suc (floor_sqrt n) * Suc (floor_sqrt n)"
  then have "Suc (floor_sqrt n) * Suc (floor_sqrt n) \<le> n" by simp
  from floor_sqrt_greatest [OF this] show False by simp
qed

lemma floor_sqrt_eq: "int (floor_sqrt n) = \<lfloor>sqrt (real n)\<rfloor>"
proof -
  have lo: "real (floor_sqrt n) \<le> sqrt (real n)"
  proof (rule real_le_rsqrt)
    have "real (floor_sqrt n * floor_sqrt n) \<le> real n"
      using floor_sqrt_lower [of n] by (simp only: of_nat_le_iff)
    then show "(real (floor_sqrt n))\<^sup>2 \<le> real n" by (simp add: power2_eq_square)
  qed
  have hi: "sqrt (real n) < real (floor_sqrt n) + 1"
  proof (rule real_less_lsqrt)
    show "0 \<le> real (floor_sqrt n) + 1" by simp
    have "real n < real (Suc (floor_sqrt n) * Suc (floor_sqrt n))"
      using floor_sqrt_upper [of n] by (simp only: of_nat_less_iff)
    then show "real n < (real (floor_sqrt n) + 1)\<^sup>2"
      by (simp add: power2_eq_square algebra_simps)
  qed
  have "\<lfloor>sqrt (real n)\<rfloor> = int (floor_sqrt n)"
    by (rule floor_unique) (use lo hi in simp_all)
  then show ?thesis by simp
qed

lemma sq_dist_pos: "p \<noteq> q \<Longrightarrow> 1 \<le> sq_dist p q"
proof -
  assume "p \<noteq> q"
  then have "fst p - fst q \<noteq> 0 \<or> snd p - snd q \<noteq> 0" by (auto simp: prod_eq_iff)
  then have "0 < (fst p - fst q) * (fst p - fst q) + (snd p - snd q) * (snd p - snd q)"
    by (metis add_pos_nonneg add_nonneg_pos zero_le_square not_real_square_gt_zero
          mult_eq_0_iff less_le zero_le_mult_iff linorder_not_less)
  then show ?thesis by (simp add: sq_dist_def)
qed

lemma trunc_dist_pos: "p \<noteq> q \<Longrightarrow> 1 \<le> trunc_dist p q"
  using floor_sqrt_greatest [of 1 "sq_dist p q"] sq_dist_pos [of p q]
  by (simp add: trunc_dist_def)

section \<open>Reading a rectangular mask\<close>

lemma py_get_in_range: "0 \<le> i \<Longrightarrow> i < int (length xs) \<Longrightarrow> py_get xs i = Inr (xs ! nat i)"
  by (simp add: py_get_def)

lemma py_get_zero: "xs \<noteq> [] \<Longrightarrow> py_get xs 0 = Inr (hd xs)"
  by (simp add: py_get_def hd_conv_nth)

lemma cell_rect:
  assumes "rect obj" "0 \<le> x" "x < int (length obj)" "0 \<le> y" "y < int (length (hd obj))"
  shows "cell obj x y = Inr (obj ! nat x ! nat y)"
proof -
  have "nat x < length obj" using assms by simp
  then have "length (obj ! nat x) = length (hd obj)"
    using assms(1) by (simp add: rect_def)
  then show ?thesis
    using assms by (simp add: cell_def py_get_in_range)
qed

lemma point_overlap_rect: "rect obj \<Longrightarrow> point_overlap pt obj = Inr (inside obj pt)"
proof -
  assume r: "rect obj"
  show ?thesis
  proof (cases "0 \<le> fst pt \<and> fst pt < int (length obj) \<and> 0 \<le> snd pt")
    case False
    then show ?thesis by (auto simp: point_overlap_def inside_def)
  next
    case True
    then have ne: "obj \<noteq> []" by auto
    show ?thesis
    proof (cases "snd pt < int (length (hd obj))")
      case False
      with True ne show ?thesis by (simp add: point_overlap_def inside_def py_get_zero)
    next
      case lt: True
      with True ne cell_rect [OF r, of "fst pt" "snd pt"] show ?thesis
        by (simp add: point_overlap_def inside_def py_get_zero)
    qed
  qed
qed

lemma collect_total: "(\<And>p. f p = Inr (g p)) \<Longrightarrow> collect f ps = Inr (filter g ps)"
  by (induction ps) simp_all

lemma classify_rect:
  "rect (fst objects) \<Longrightarrow> rect (snd objects) \<Longrightarrow> classify objects pt = Inr (label_of objects pt)"
  by (simp add: classify_def label_of_def point_overlap_rect)

lemma travel_rect:
  "rect (fst objects) \<Longrightarrow> rect (snd objects) \<Longrightarrow>
   travel objects line = Inr (map (label_of objects) line)"
  by (induction line) (simp_all add: classify_rect)

lemma travels_of_rect:
  "rect (fst objects) \<Longrightarrow> rect (snd objects) \<Longrightarrow>
   travels_of objects diameters = Inr (map (map (label_of objects)) diameters)"
  by (induction diameters) (simp_all add: travel_rect)

section \<open>Empty contours and empty masks\<close>

lemma true_pixels_empty:
  assumes "\<forall>row \<in> set obj. \<forall>v \<in> set row. \<not> v"
  shows "true_pixels obj = []"
proof -
  have "\<not> obj ! a ! b" if "a < length obj" "b < length (obj ! a)" for a b
    using assms that by (meson nth_mem)
  then show ?thesis
    by (auto simp: true_pixels_def in_set_enumerate_eq filter_empty_conv)
qed

text \<open>
  Claim C8, as the code has it: when the contour of a mask is empty, \<open>convex_hull\<close>
  raises nothing; it returns the initial value \<open>(9999, 9999)\<close> of the minimum search as
  the pivot, with an empty hull sequence.
\<close>

theorem convex_hull_empty_contour:
  "object_contour obj = Inr [] \<Longrightarrow> convex_hull obj = Inr ((9999, 9999), [])"
  by (simp add: convex_hull_def get_corner_pixel_def sortby_slope_def)

theorem convex_hull_empty_contour_witness:
  "object_contour [[False]] = Inr [] \<and> convex_hull [[False]] = Inr ((9999, 9999), [])"
proof -
  have h: "object_contour [[False]] = Inr []" by code_simp
  from convex_hull_empty_contour [OF h] h show ?thesis by simp
qed

text \<open>
  Claim C8 as stated (an explicit error for an empty contour) fails on the 2\<times>2 mask
  without a true pixel: the result is a value, the sentinel pivot.
\<close>

theorem convex_hull_sentinel_counterexample:
  "object_contour [[False, False], [False, False]] = Inr [] \<and>
   convex_hull [[False, False], [False, False]] = Inr ((9999, 9999), [])"
  by code_simp

text \<open>
  Claim C9, as the code has it: on a mask without a true pixel, \<open>barycentre\<close> divides
  the empty sum by the zero count and fails with Python's \<open>ZeroDivisionError\<close>.
\<close>

theorem barycentre_no_pixel:
  "\<forall>row \<in> set obj. \<forall>v \<in> set row. \<not> v \<Longrightarrow> barycentre obj = Inl ZeroDivisionError"
  by (simp add: barycentre_def true_pixels_empty)

theorem barycentre_no_pixel_witness:
  "barycentre [[False, False], [False, False]] = Inl ZeroDivisionError"
proof -
  have h: "\<forall>row \<in> set [[False, False], [False, False]]. \<forall>v \<in> set row. \<not> v" by simp
  from barycentre_no_pixel [OF h] show ?thesis .
qed

text \<open>
  Claim C9 as stated names the failure \<open>DegenerateObjectError\<close>; on the 1\<times>1 empty mask
  the failure is \<open>ZeroDivisionError\<close>.
\<close>

theorem barycentre_error_counterexample:
  "barycentre [[False]] = Inl ZeroDivisionError \<and>
   barycentre [[False]] \<noteq> Inl DegenerateObjectError"
  by code_simp

section \<open>The pruning pass\<close>

text \<open>
  Claim C2 says that the cursor of the pruning pass never goes below 1.  On the mask
  with rows \<open>TTT\<close>, \<open>TTF\<close>, \<open>FFF\<close> the first three power tests are negative: the
  cursor visits 1, 0, -1 and -2, the tests at 0 and -1 read \<open>ch[-1]\<close> and \<open>ch[-2]\<close> from
  the end of the list, and the test at -2 reads \<open>ch[-3]\<close> of a two-element list, which
  raises \<open>IndexError\<close>.
\<close>

theorem prune_steps_below_one:
  "object_contour [[True, True, True], [True, True, False], [False, False, False]]
     = Inr [(0, 0), (0, 1), (0, 2), (1, 0), (1, 1)] \<and>
   sortby_slope (0, 0) [(0, 0), (0, 1), (0, 2), (1, 0), (1, 1)]
     = [(1, 0), (0, 0), (0, 1), (0, 2), (1, 1)] \<and>
   prune_cursors [(1, 0), (0, 0), (0, 1), (0, 2), (1, 1)] 1 = [1, 0, - 1, - 2] \<and>
   convex_hull [[True, True, True], [True, True, False], [False, False, False]] = Inl IndexError"
  by code_simp

section \<open>Contours of square and other masks\<close>

text \<open>
  On a square mask, where \<open>len(obj)\<close> and \<open>len(obj[0])\<close> agree, the contour
  consists of the pixels that satisfy the boundary predicate.
\<close>

lemma not_cell_rect:
  assumes "rect obj" "0 \<le> x" "x < int (length obj)" "0 \<le> y" "y < int (length (hd obj))"
  shows "not_cell obj x y = Inr (\<not> inside obj (x, y))"
  using assms cell_rect [OF assms] by (simp add: not_cell_def inside_def)

lemma isContour_outside:
  assumes "length (hd obj) = length obj"
    "\<not> (0 \<le> x \<and> x < int (length obj) \<and> 0 \<le> y \<and> y < int (length obj))"
  shows "isContour obj x y = Inr False"
proof (cases "x < 0 \<or> y < 0 \<or> x \<ge> int (length obj)")
  case True
  then show ?thesis by (simp add: isContour_def)
next
  case False
  then have "obj \<noteq> []" by auto
  then have g: "py_get obj 0 = Inr (hd obj)" by (rule py_get_zero)
  from False assms have "y \<ge> int (length (hd obj))" by simp
  with False show ?thesis by (simp add: isContour_def g)
qed

lemma isContour_inside:
  assumes r: "rect obj" and sq: "length (hd obj) = length obj"
    and x: "0 \<le> x" "x < int (length obj)" and y: "0 \<le> y" "y < int (length obj)"
  shows "isContour obj x y = Inr (is_boundary obj (x, y))"
proof -
  from x have "obj \<noteq> []" by auto
  then have g: "py_get obj 0 = Inr (hd obj)" by (rule py_get_zero)
  from x y sq have c: "cell obj x y = Inr (obj ! nat x ! nat y)"
    by (intro cell_rect [OF r]) simp_all
  from x y sq have i: "inside obj (x, y) = obj ! nat x ! nat y"
    by (simp add: inside_def)
  have start: "isContour obj x y =
      (if \<not> obj ! nat x ! nat y then Inr False
       else if x = 0 \<or> y = 0 \<or> x = int (length obj) - 1 \<or> y = int (length obj) - 1
         then Inr True
       else or_else (not_cell obj (x - 1) y) (or_else (not_cell obj (x + 1) y)
              (or_else (not_cell obj x (y - 1)) (not_cell obj x (y + 1)))))"
    using x y sq by (simp add: isContour_def g c)
  show ?thesis
  proof (cases "obj ! nat x ! nat y")
    case False
    then show ?thesis by (simp add: start is_boundary_def i)
  next
    case v: True
    show ?thesis
    proof (cases "x = 0 \<or> y = 0 \<or> x = int (length obj) - 1 \<or> y = int (length obj) - 1")
      case True
      with v show ?thesis by (auto simp: start is_boundary_def i sq)
    next
      case False
      have n1: "not_cell obj (x - 1) y = Inr (\<not> inside obj (x - 1, y))"
        using False x y sq by (intro not_cell_rect [OF r]) simp_all
      have n2: "not_cell obj (x + 1) y = Inr (\<not> inside obj (x + 1, y))"
        using False x y sq by (intro not_cell_rect [OF r]) simp_all
      have n3: "not_cell obj x (y - 1) = Inr (\<not> inside obj (x, y - 1))"
        using False x y sq by (intro not_cell_rect [OF r]) simp_all
      have n4: "not_cell obj x (y + 1) = Inr (\<not> inside obj (x, y + 1))"
        using False x y sq by (intro not_cell_rect [OF r]) simp_all
      have "isContour obj x y =
            Inr (\<not> inside obj (x - 1, y) \<or> \<not> inside obj (x + 1, y) \<or>
                 \<not> inside obj (x, y - 1) \<or> \<not> inside obj (x, y + 1))"
        using v False by (simp add: start n1 n2 n3 n4 or_else_def)
      moreover have "is_boundary obj (x, y) =
            (\<not> inside obj (x - 1, y) \<or> \<not> inside obj (x + 1, y) \<or>
             \<not> inside obj (x, y - 1) \<or> \<not> inside obj (x, y + 1))"
        using v False by (simp add: is_boundary_def i sq)
      ultimately show ?thesis by simp
    qed
  qed
qed

lemma isContour_square:
  assumes r: "rect obj" and sq: "length (hd obj) = length obj"
  shows "isContour obj x y = Inr (is_boundary obj (x, y))"
proof (cases "0 \<le> x \<and> x < int (length obj) \<and> 0 \<le> y \<and> y < int (length obj)")
  case True
  then show ?thesis by (simp add: isContour_inside [OF r sq])
next
  case False
  then have "\<not> inside obj (x, y)" by (auto simp: inside_def sq)
  then have "\<not> is_boundary obj (x, y)" by (simp add: is_boundary_def)
  with isContour_outside [OF sq False] show ?thesis by simp
qed

lemma object_contour_square:
  assumes "rect obj" "length (hd obj) = length obj"
  shows "object_contour obj = Inr (filter (is_boundary obj) (scan_order (length obj)))"
  unfolding object_contour_def
  by (rule collect_total) (simp add: isContour_square [OF assms] split: prod.splits)

lemma scan_order_set:
  "set (scan_order n) = {(x, y). 0 \<le> x \<and> x < int n \<and> 0 \<le> y \<and> y < int n}"
proof -
  have "\<exists>i<n. x = int i" if "0 \<le> x" "x < int n" for x
    using that by (intro exI [where x = "nat x"]) simp
  then show ?thesis
    by (fastforce simp: scan_order_def image_iff)
qed

lemma contour_square_iff:
  assumes "rect obj" "length (hd obj) = length obj"
  shows "\<exists>c. object_contour obj = Inr c \<and> (\<forall>pt. pt \<in> set c \<longleftrightarrow> is_boundary obj pt)"
proof -
  have "is_boundary obj pt \<Longrightarrow> pt \<in> set (scan_order (length obj))" for pt
    by (cases pt) (simp add: scan_order_set is_boundary_def inside_def assms(2))
  then show ?thesis
    unfolding object_contour_square [OF assms] by auto
qed

text \<open>
  Claim C3 is stated for every rectangular mask.  \<open>isContour\<close> tests the last column
  against \<open>len(obj) - 1\<close> and \<open>object_contour\<close> runs the column index over
  \<open>range(len(obj))\<close>, the number of rows: on the 1\<times>2 mask \<open>[[True, True]]\<close> the border
  pixel \<open>(0, 1)\<close> is never visited, and on the all-true mask of 5 rows and 3 columns the
  test of \<open>(1, 2)\<close> reads \<open>obj[1][3]\<close> and raises \<open>IndexError\<close>.
\<close>

theorem object_contour_nonsquare:
  "object_contour [[True, True]] = Inr [(0, 0)] \<and>
   object_contour [[True, True, True], [True, True, True], [True, True, True],
                   [True, True, True], [True, True, True]] = Inl IndexError"
  by code_simp

section \<open>The 5\<times>5 all-true mask\<close>

text \<open>
  Claim C4, as the code has it: on the 5\<times>5 all-true mask \<open>object_contour\<close> returns the
  16 border cells and \<open>convex_hull\<close> returns the pivot \<open>(0, 0)\<close>; the hull sequence is
  not reduced to the four corners.  A power of 0 advances the cursor, so border points
  between two corners, such as \<open>(2, 0)\<close>, stay in the sequence, which has more than four
  points and contains the corners \<open>(4, 0)\<close> and \<open>(4, 4)\<close>.
\<close>

theorem full5_contour_hull:
  "object_contour (replicate 5 (replicate 5 True))
     = Inr [(0, 0), (0, 1), (0, 2), (0, 3), (0, 4), (1, 0), (1, 4), (2, 0), (2, 4),
            (3, 0), (3, 4), (4, 0), (4, 1), (4, 2), (4, 3), (4, 4)] \<and>
   (\<exists>ch. convex_hull (replicate 5 (replicate 5 True)) = Inr ((0, 0), ch) \<and>
      (4, 0) \<in> set ch \<and> (4, 4) \<in> set ch \<and> (2, 0) \<in> set ch \<and> 4 < length ch)"
proof -
  have c: "object_contour (replicate 5 (replicate 5 True))
     = Inr [(0, 0), (0, 1), (0, 2), (0, 3), (0, 4), (1, 0), (1, 4), (2, 0), (2, 4),
            (3, 0), (3, 4), (4, 0), (4, 1), (4, 2), (4, 3), (4, 4)]"
    by code_simp
  have h: "convex_hull (replicate 5 (replicate 5 True))
     = Inr ((0, 0), [(1, 0), (2, 0), (3, 0), (4, 0), (4, 1), (4, 2), (4, 3), (4, 4),
                     (3, 4), (2, 4), (1, 4)])"
    by code_simp
  show ?thesis unfolding c h by simp
qed

text \<open>
  Claim C4 as stated (a hull sequence of exactly the four corners) fails: the sequence
  has eleven points.
\<close>

theorem full5_hull_counterexample:
  "convex_hull (replicate 5 (replicate 5 True))
     = Inr ((0, 0), [(1, 0), (2, 0), (3, 0), (4, 0), (4, 1), (4, 2), (4, 3), (4, 4),
                     (3, 4), (2, 4), (1, 4)]) \<and>
   length [(1::int, 0::int), (2, 0), (3, 0), (4, 0), (4, 1), (4, 2), (4, 3), (4, 4),
           (3, 4), (2, 4), (1, 4)] = 11"
  by code_simp

section \<open>The radius\<close>

text \<open>
  Claim C1 says that the radius is the truncated greatest Euclidean distance from the
  centre to a corner of a bounding box.  \<open>radial_line_model_radius\<close> picks the corner
  by its Manhattan distance.  With the centre \<open>(0, 0)\<close>, a first mask whose only pixel
  is \<open>(2, 2)\<close> and a second whose only pixel is \<open>(0, 3)\<close>, it picks \<open>(2, 2)\<close>
  (Manhattan distance 4 against 3) and returns 2, while the corner \<open>(0, 3)\<close> is at
  Euclidean distance 3.
\<close>

theorem radius_manhattan_corner:
  "radial_line_model_radius
     ([[False, False, False, False], [False, False, False, False],
       [False, False, True, False], [False, False, False, False]],
      [[False, False, False, True], [False, False, False, False],
       [False, False, False, False], [False, False, False, False]]) 0 0 = 2 \<and>
   (0, 3) \<in> set (corners (bounding_box
      [[False, False, False, True], [False, False, False, False],
       [False, False, False, False], [False, False, False, False]])) \<and>
   trunc_dist (0, 0) (0, 3) = 3"
  by code_simp

section \<open>The radial line model\<close>

lemma occupancy_rect:
  "rect obj \<Longrightarrow> line \<noteq> [] \<Longrightarrow> occupancy line obj = Inr (ratio obj line)"
  by (simp add: occupancy_def ratio_def collect_total [where g = "inside obj"] point_overlap_rect)

lemma ratio_bounds: "0 \<le> ratio obj line \<and> ratio obj line \<le> 1"
proof -
  have "length (filter (inside obj) line) \<le> length line" by simp
  then show ?thesis
    by (cases "line = []") (simp_all add: ratio_def divide_le_eq_1)
qed

lemma radial_line_model_rect:
  assumes "rect (fst objects)" "rect (snd objects)" "\<forall>line \<in> set lines. line \<noteq> []"
  shows "radial_line_model lines objects
           = Inr (map (ratio (fst objects)) lines, map (ratio (snd objects)) lines)"
  using assms(3)
  by (induction lines) (simp_all add: occupancy_rect assms(1,2))

text \<open>
  Claim C6: for rectangular masks and non-empty half-lines, \<open>radial_line_model\<close>
  returns, for each mask, the list of the occupancies of the lines, and every occupancy
  lies between 0 and 1.  The occupancy counts the points of the line inside the mask; a
  point outside the grid counts as not inside and raises nothing.
\<close>

theorem rlm_values:
  assumes "rect (fst objects)" "rect (snd objects)" "\<forall>line \<in> set lines. line \<noteq> []"
  shows "radial_line_model lines objects
           = Inr (map (ratio (fst objects)) lines, map (ratio (snd objects)) lines) \<and>
         (\<forall>line \<in> set lines. 0 \<le> ratio (fst objects) line \<and> ratio (fst objects) line \<le> 1 \<and>
                              0 \<le> ratio (snd objects) line \<and> ratio (snd objects) line \<le> 1)"
  using radial_line_model_rect [OF assms] ratio_bounds by simp

theorem rlm_values_witness:
  "radial_line_model [[(0, 0), (0, 1), (5, 5)]] ([[True, False]], [[False, False]])
     = Inr (map (ratio (fst ([[True, False]], [[False, False]]))) [[(0, 0), (0, 1), (5, 5)]],
            map (ratio (snd ([[True, False]], [[False, False]]))) [[(0, 0), (0, 1), (5, 5)]])"
proof -
  have r1: "rect (fst ([[True, False]], [[False, False]]))"
    and r2: "rect (snd ([[True, False]], [[False, False]]))"
    by (simp_all add: rect_def)
  have n: "\<forall>line \<in> set [[(0, 0), (0, 1), (5, 5)]]. line \<noteq> ([] :: point list)" by simp
  from rlm_values [OF r1 r2 n] show ?thesis by (rule conjunct1)
qed

section \<open>Forces\<close>

lemma contribution_ok:
  "force_type = 0 \<or> p \<noteq> q \<Longrightarrow> \<exists>c. contribution force_type p q = Inr c"
  using trunc_dist_pos [of p q] by (auto simp: contribution_def Let_def)

lemma force_inner_ok:
  "force_type = 0 \<or> p \<notin> snd ` set rest \<Longrightarrow> \<exists>f. force_inner force_type p rest force = Inr f"
proof (induction rest arbitrary: force)
  case Nil
  then show ?case by simp
next
  case (Cons a rest)
  obtain l q where a: "a = (l, q)" by (cases a)
  from Cons.prems a have pq: "force_type = 0 \<or> p \<noteq> q" by auto
  from Cons.prems have rest: "force_type = 0 \<or> p \<notin> snd ` set rest" by auto
  from contribution_ok [OF pq] obtain c where c: "contribution force_type p q = Inr c" ..
  show ?case using Cons.IH [OF rest] by (simp add: a c)
qed

lemma force_outer_ok:
  "force_type = 0 \<or> distinct (map snd xs) \<Longrightarrow> \<exists>f. force_outer force_type xs force = Inr f"
proof (induction xs arbitrary: force)
  case Nil
  then show ?case by simp
next
  case (Cons a xs)
  obtain l p where a: "a = (l, p)" by (cases a)
  from Cons.prems a have inner: "force_type = 0 \<or> p \<notin> snd ` set xs" by auto
  from Cons.prems have rest: "force_type = 0 \<or> distinct (map snd xs)" by auto
  show ?case
  proof (cases "l = A")
    case False
    then show ?thesis using Cons.IH [OF rest] by (simp add: a)
  next
    case True
    from force_inner_ok [OF inner] obtain f where
      "force_inner force_type p xs force = Inr f" ..
    then show ?thesis using Cons.IH [OF rest] True by (simp add: a)
  qed
qed

lemma force_of_ok:
  assumes "force_type = 0 \<or> distinct line" "length fline = length line"
  shows "\<exists>f. force_of force_type fline line = Inr f"
proof -
  have "map snd (zip fline line) = line" using assms(2) by simp
  with assms(1) have "force_type = 0 \<or> distinct (map snd (zip fline line))" by simp
  from force_outer_ok [OF this] show ?thesis by (simp add: force_of_def)
qed

lemma force_all_ok:
  assumes "force_type = 0 \<or> (\<forall>line \<in> set diameters. distinct line)"
  shows "\<exists>fs. force_all force_type (map (map g) diameters) diameters = Inr fs \<and>
              length fs = length diameters"
  using assms
proof (induction diameters)
  case Nil
  then show ?case by simp
next
  case (Cons line diameters)
  from Cons.prems have "force_type = 0 \<or> distinct line" by auto
  from force_of_ok [OF this, of "map g line"] obtain f where
    f: "force_of force_type (map g line) line = Inr f" by auto
  from Cons.prems have "force_type = 0 \<or> (\<forall>line \<in> set diameters. distinct line)" by auto
  from Cons.IH [OF this] obtain fs where
    "force_all force_type (map (map g) diameters) diameters = Inr fs" "length fs = length diameters"
    by auto
  then show ?case by (simp add: f)
qed

lemma forces_ok:
  assumes "rect (fst objects)" "rect (snd objects)"
    "force_type = 0 \<or> (\<forall>line \<in> set diameters. distinct line)"
  shows "\<exists>fs. forces objects diameters force_type = Inr fs \<and> length fs = length diameters"
  using force_all_ok [OF assms(3), of "label_of objects"]
  by (simp add: forces_def travels_of_rect assms(1,2))

lemma row_sum_Nil: "row_sum d p [] = 0"
  by (simp add: row_sum_def)

lemma row_sum_Cons:
  "row_sum d p (x # xs) = (if fst x = B then d p (snd x) else 0) + row_sum d p xs"
  by (simp add: row_sum_def sum.lessThan_Suc_shift del: sum.lessThan_Suc cong: if_cong)

lemma zsum_Nil: "zsum d [] = 0"
  by (simp add: zsum_def)

lemma zsum_Cons:
  "zsum d (x # xs) = (if fst x = A then row_sum d (snd x) xs else 0) + zsum d xs"
proof -
  have "zsum d (x # xs) =
        (\<Sum>r<length xs. if fst x = A \<and> fst (xs ! r) = B then d (snd x) (snd (xs ! r)) else 0)
        + zsum d xs"
    by (simp add: zsum_def sum.lessThan_Suc_shift sum.distrib del: sum.lessThan_Suc cong: if_cong)
  also have "(\<Sum>r<length xs. if fst x = A \<and> fst (xs ! r) = B then d (snd x) (snd (xs ! r)) else 0)
             = (if fst x = A then row_sum d (snd x) xs else 0)"
    by (simp add: row_sum_def)
  finally show ?thesis .
qed

lemma force_inner_zero:
  "force_inner 0 p rest force = Inr (force + row_sum (\<lambda>p q. real (trunc_dist p q)) p rest)"
proof (induction rest arbitrary: force)
  case Nil
  then show ?case by (simp add: row_sum_Nil)
next
  case (Cons a rest)
  obtain l q where a: "a = (l, q)" by (cases a)
  show ?case by (simp add: a Cons.IH row_sum_Cons contribution_def)
qed

lemma force_outer_zero:
  "force_outer 0 xs force = Inr (force + zsum (\<lambda>p q. real (trunc_dist p q)) xs)"
proof (induction xs arbitrary: force)
  case Nil
  then show ?case by (simp add: zsum_Nil)
next
  case (Cons a xs)
  obtain l p where a: "a = (l, p)" by (cases a)
  show ?case
  proof (cases "l = A")
    case True
    then show ?thesis
      by (simp add: a Cons.IH zsum_Cons force_inner_zero)
  next
    case False
    then show ?thesis by (simp add: a Cons.IH zsum_Cons)
  qed
qed

lemma zsum_zip:
  "length fline = length line \<Longrightarrow> zsum d (zip fline line) = pair_sum d fline line"
  unfolding zsum_def pair_sum_def
  by (intro sum.cong) simp_all

lemma pair_sum_no_pair:
  assumes "\<not> (A \<in> set fline \<and> B \<in> set fline)" "length fline = length line"
  shows "pair_sum d fline line = 0"
proof -
  have "\<not> (fline ! p = A \<and> fline ! r = B)" if "p < length line" "r < length line" for p r
    using assms that by (metis nth_mem)
  then have "(if p < r \<and> fline ! p = A \<and> fline ! r = B then d (line ! p) (line ! r) else 0) = 0"
    if "p \<in> {..<length line}" "r \<in> {..<length line}" for p r
    using that by auto
  then show ?thesis unfolding pair_sum_def by (intro sum.neutral ballI)
qed

lemma force_of_zero:
  assumes "length fline = length line"
  shows "force_of 0 fline line = Inr (pair_sum (\<lambda>p q. real (trunc_dist p q)) fline line)"
proof (cases "A \<in> set fline \<and> B \<in> set fline")
  case True
  then show ?thesis by (simp add: force_of_def force_outer_zero zsum_zip [OF assms])
next
  case False
  from pair_sum_no_pair [OF this assms]
  have "pair_sum (\<lambda>p q. real (trunc_dist p q)) fline line = 0" .
  with False show ?thesis by (auto simp: force_of_def)
qed

lemma force_all_zero:
  "force_all 0 (map (map g) diameters) diameters
     = Inr (map (\<lambda>line. pair_sum (\<lambda>p q. real (trunc_dist p q)) (map g line) line) diameters)"
  by (induction diameters) (simp_all add: force_of_zero)

text \<open>
  Claim C7, as the code has it: for force type 0 and rectangular masks, the force of a
  diameter is the sum, over the pairs of positions \<open>p < r\<close> with label \<open>A\<close> at \<open>p\<close> and
  label \<open>B\<close> at \<open>r\<close>, of the Euclidean distance between the two points truncated to an
  integer.
\<close>

theorem forces_type_zero:
  assumes "rect (fst objects)" "rect (snd objects)"
  shows "forces objects diameters 0
           = Inr (map (\<lambda>line. pair_sum (\<lambda>p q. real (trunc_dist p q))
                                  (map (label_of objects) line) line) diameters)"
  by (simp add: forces_def travels_of_rect [OF assms] force_all_zero)

theorem forces_type_zero_witness:
  "forces ([[False, False], [False, True]], [[True, False], [False, False]]) [[(0, 0), (1, 1)]] 0
     = Inr (map (\<lambda>line. pair_sum (\<lambda>p q. real (trunc_dist p q))
                     (map (label_of ([[False, False], [False, True]], [[True, False], [False, False]])) line) line)
                [[(0, 0), (1, 1)]])"
proof -
  have r1: "rect (fst ([[False, False], [False, True]], [[True, False], [False, False]]))"
    and r2: "rect (snd ([[False, False], [False, True]], [[True, False], [False, False]]))"
    by (simp_all add: rect_def)
  from forces_type_zero [OF r1 r2] show ?thesis .
qed

lemma trunc_dist_diag: "trunc_dist (0, 0) (1, 1) = 1"
  by code_simp

lemma sq_dist_diag: "sq_dist (0, 0) (1, 1) = 2"
  by code_simp

text \<open>
  Claim C7 as stated takes the raw distance.  On the diameter \<open>[(0, 0), (1, 1)]\<close>, with
  \<open>(0, 0)\<close> labelled \<open>A\<close> and \<open>(1, 1)\<close> labelled \<open>B\<close>, the force is 1 and the raw
  distance is the square root of 2.
\<close>

theorem forces_raw_distance_counterexample:
  "travel ([[False, False], [False, True]], [[True, False], [False, False]]) [(0, 0), (1, 1)]
     = Inr [A, B] \<and>
   forces ([[False, False], [False, True]], [[True, False], [False, False]]) [[(0, 0), (1, 1)]] 0
     = Inr [1] \<and>
   pair_sum euclid [A, B] [(0, 0), (1, 1)] = sqrt 2 \<and>
   forces ([[False, False], [False, True]], [[True, False], [False, False]]) [[(0, 0), (1, 1)]] 0
     \<noteq> Inr [pair_sum euclid [A, B] [(0, 0), (1, 1)]]"
proof -
  have t: "travel ([[False, False], [False, True]], [[True, False], [False, False]]) [(0, 0), (1, 1)]
             = Inr [A, B]"
    by code_simp
  have f: "forces ([[False, False], [False, True]], [[True, False], [False, False]])
             [[(0, 0), (1, 1)]] 0 = Inr [1]"
  proof -
    have ts: "travels_of ([[False, False], [False, True]], [[True, False], [False, False]])
                [[(0, 0), (1, 1)]] = Inr [[A, B]]"
      by code_simp
    show ?thesis unfolding forces_def ts
      by (simp add: force_of_def contribution_def trunc_dist_diag)
  qed
  have "{..<2::nat} = {0, 1}" by auto
  then have p: "pair_sum euclid [A, B] [(0, 0), (1, 1)] = sqrt 2"
    by (simp add: pair_sum_def euclid_def sq_dist_diag)
  have "sqrt 2 \<noteq> 1" by simp
  with t f p show ?thesis by simp
qed

text \<open>
  Claim C10: with a force type other than 0, on diameters whose points are pairwise
  distinct, the truncated distance between two different positions is at least 1, the
  logarithmic term is computed without a division by zero, and \<open>forces\<close> returns one
  value for each diameter.
\<close>

theorem log_force_defined:
  assumes "rect (fst objects)" "rect (snd objects)" "force_type \<noteq> 0"
    "\<forall>line \<in> set diameters. distinct line"
  shows "(\<forall>line \<in> set diameters. \<forall>p r. p < r \<and> r < length line \<longrightarrow>
            1 \<le> trunc_dist (line ! p) (line ! r) \<and>
            contribution force_type (line ! p) (line ! r)
              = Inr (ln (real ((trunc_dist (line ! p) (line ! r) + 1) ^ 2)
                         / real (trunc_dist (line ! p) (line ! r) * (trunc_dist (line ! p) (line ! r) + 2))))) \<and>
         (\<exists>fs. forces objects diameters force_type = Inr fs \<and> length fs = length diameters)"
proof (intro conjI ballI allI impI)
  fix line p r
  assume "line \<in> set diameters" and pr: "p < r \<and> r < length line"
  with assms(4) have "distinct line" by simp
  with pr have "line ! p \<noteq> line ! r" by (simp add: nth_eq_iff_index_eq)
  from trunc_dist_pos [OF this] show "1 \<le> trunc_dist (line ! p) (line ! r)" .
  then show "contribution force_type (line ! p) (line ! r)
              = Inr (ln (real ((trunc_dist (line ! p) (line ! r) + 1) ^ 2)
                         / real (trunc_dist (line ! p) (line ! r) * (trunc_dist (line ! p) (line ! r) + 2))))"
    using assms(3) by (simp add: contribution_def Let_def)
next
  from assms(4) have "force_type = 0 \<or> (\<forall>line \<in> set diameters. distinct line)" by simp
  from forces_ok [OF assms(1,2) this]
  show "\<exists>fs. forces objects diameters force_type = Inr fs \<and> length fs = length diameters" .
qed

theorem log_force_defined_witness:
  "\<exists>fs. forces ([[False, False], [False, True]], [[True, False], [False, False]])
           [[(0, 0), (1, 1)]] 2 = Inr fs \<and> length fs = length [[(0::int, 0::int), (1, 1)]]"
proof -
  have r1: "rect (fst ([[False, False], [False, True]], [[True, False], [False, False]]))"
    and r2: "rect (snd ([[False, False], [False, True]], [[True, False], [False, False]]))"
    by (simp_all add: rect_def)
  have f: "(2::int) \<noteq> 0" by simp
  have d: "\<forall>line \<in> set [[(0::int, 0::int), (1, 1)]]. distinct line" by simp
  from log_force_defined [OF r1 r2 f d] show ?thesis by (rule conjunct2)
qed

section \<open>The three histograms\<close>






end
